theory Spec2Isabelle
  imports Main "HOL-Library.Multiset"
begin

section \<open>The operator interface of include/mxnet/operator.h\<close>

text \<open>
  The header declares the abstract class \<open>OperatorProperty\<close>. Its virtual member
  functions with a body are embedded below under their own names; each definition is
  the body of the base class. A call through \<open>this\<close> is dynamically dispatched,
  so an object is represented by the overrides of its class: \<open>None\<close> for a member
  the class inherits, \<open>Some f\<close> for one it overrides. There is an entry for each
  member whose override the properties below depend on.

  A value of type \<open>int\<close> is modelled by the integer it denotes, between
  \<open>-2147483648\<close> and \<open>2147483647\<close>. The only arithmetic on such values is the
  counter \<open>cnt++\<close> of \<open>BackwardInputs\<close>, which is embedded with its 32-bit
  wrap-around (\<open>wrap_int\<close> below). Loop variables of type \<open>size_t\<close> and vector
  sizes are natural numbers.
\<close>

subsection \<open>Types declared in other headers\<close>

typedecl ResourceRequest

subsection \<open>Objects and dynamic dispatch\<close>

record OperatorProperty =
  override_NumReturns :: "int option"
  override_NumVisibleReturns :: "int option"
  override_DeclareBackwardDependency ::
    "(int list \<Rightarrow> int list \<Rightarrow> int list \<Rightarrow> int list) option"

text \<open>An object of a class that overrides none of the three members.\<close>

definition inherits_all :: OperatorProperty where
  "inherits_all =
     \<lparr>override_NumReturns = None, override_NumVisibleReturns = None,
      override_DeclareBackwardDependency = None\<rparr>"

subsection \<open>Names and return counts (lines 133--161)\<close>

definition ListArguments :: "string list" where
  "ListArguments = [''data'']"

definition ListReturns :: "string list" where
  "ListReturns = [''output'']"

definition NumReturns :: int where
  "NumReturns = 1"

definition this_NumReturns :: "OperatorProperty \<Rightarrow> int" where
  "this_NumReturns this =
     (case override_NumReturns this of None \<Rightarrow> NumReturns | Some n \<Rightarrow> n)"

text \<open>The body is \<open>return NumReturns();\<close>, a virtual call.\<close>

definition NumVisibleReturns :: "OperatorProperty \<Rightarrow> int" where
  "NumVisibleReturns this = this_NumReturns this"

definition this_NumVisibleReturns :: "OperatorProperty \<Rightarrow> int" where
  "this_NumVisibleReturns this =
     (case override_NumVisibleReturns this of
        None \<Rightarrow> NumVisibleReturns this
      | Some k \<Rightarrow> k)"

subsection \<open>Resources and in-place options (lines 208--219, 268--297)\<close>

definition ForwardResource :: "ResourceRequest list" where
  "ForwardResource = []"

definition BackwardResource :: "ResourceRequest list" where
  "BackwardResource = []"

definition ForwardInplaceOption :: "int list \<Rightarrow> int list \<Rightarrow> (int \<times> int) list" where
  "ForwardInplaceOption in_data out_data = []"

definition BackwardInplaceOption ::
  "int list \<Rightarrow> int list \<Rightarrow> int list \<Rightarrow> int list \<Rightarrow> (int \<times> int) list" where
  "BackwardInplaceOption out_grad in_data out_data in_grad = []"

subsection \<open>Backward dependencies (lines 242--252)\<close>

text \<open>
  \<open>ret\<close> starts as a copy of \<open>out_grad\<close>; the two \<open>insert\<close> calls append
  \<open>in_data\<close> and then \<open>out_data\<close> at its end.
\<close>

definition DeclareBackwardDependency :: "int list \<Rightarrow> int list \<Rightarrow> int list \<Rightarrow> int list" where
  "DeclareBackwardDependency out_grad in_data out_data =
     (let ret = out_grad;
          ret = ret @ in_data;
          ret = ret @ out_data
      in ret)"

definition this_DeclareBackwardDependency ::
  "OperatorProperty \<Rightarrow> int list \<Rightarrow> int list \<Rightarrow> int list \<Rightarrow> int list" where
  "this_DeclareBackwardDependency this =
     (case override_DeclareBackwardDependency this of
        None \<Rightarrow> DeclareBackwardDependency
      | Some f \<Rightarrow> f)"

subsection \<open>Selecting the inputs of Backward (lines 310--336)\<close>

text \<open>
  \<open>std::vector::operator[]\<close> does not check its index; reading outside the vector
  is undefined behaviour. The embedding makes every element read explicit and
  stops with \<open>OutOfBounds\<close> at the first read outside the vector.
\<close>

datatype error = OutOfBounds

text \<open>A read \<open>v[i]\<close> with \<open>i\<close> of type \<open>size_t\<close>.\<close>

definition at_size_t :: "'a list \<Rightarrow> nat \<Rightarrow> error + 'a" where
  "at_size_t v i = (if i < length v then Inr (v ! i) else Inl OutOfBounds)"

text \<open>
  A read \<open>v[k]\<close> with \<open>k\<close> of type \<open>int\<close>: the index is converted to \<open>size_t\<close>,
  which sends a negative \<open>k\<close> to a value beyond the size of any vector.
\<close>

definition at_int :: "'a list \<Rightarrow> int \<Rightarrow> error + 'a" where
  "at_int v k = (if 0 \<le> k \<and> nat k < length v then Inr (v ! nat k) else Inl OutOfBounds)"

text \<open>
  The value that a 32-bit \<open>int\<close> holds after an arithmetic result \<open>n\<close> is stored in
  it. Overflow of a signed \<open>int\<close> is undefined in C++; the embedding takes the
  two's complement wrap-around of the machine addition, so the successor of
  \<open>2147483647\<close> is \<open>-2147483648\<close>.
\<close>

definition wrap_int :: "int \<Rightarrow> int" where
  "wrap_int n = (n + 2147483648) mod 4294967296 - 2147483648"

text \<open>
  The three flattening loops have the same shape,
  \<^verbatim>\<open>for (size_t i = 0; i < bound; ++i) { idx.push_back(cnt++); all_vec.push_back(src[i]); }\<close>
  and differ in the bound and in the vector \<open>src\<close> that is read. The loop state is
  \<open>(cnt, all_vec, idx)\<close>; \<open>cnt++\<close> pushes the old value of \<open>cnt\<close> and stores the
  incremented one.
\<close>

function flatten_loop ::
  "'a list \<Rightarrow> nat \<Rightarrow> nat \<Rightarrow> int \<times> 'a list \<times> int list \<Rightarrow> error + (int \<times> 'a list \<times> int list)" where
  "flatten_loop src bound i (cnt, all_vec, idx) =
     (if i < bound then
        (case at_size_t src i of
           Inl e \<Rightarrow> Inl e
         | Inr x \<Rightarrow>
             flatten_loop src bound (Suc i) (wrap_int (cnt + 1), all_vec @ [x], idx @ [cnt]))
      else Inr (cnt, all_vec, idx))"
  by pat_completeness auto
termination
  by (relation "measure (\<lambda>(src, bound, i, s). bound - i)") auto

text \<open>
  The last loop, \<^verbatim>\<open>ret.push_back(all_vec[ret_idx[i]])\<close> for every position of
  \<open>ret_idx\<close>, as a recursion over \<open>ret_idx\<close> with \<open>ret\<close> as accumulator.
\<close>

fun select_loop :: "'a list \<Rightarrow> int list \<Rightarrow> 'a list \<Rightarrow> error + 'a list" where
  "select_loop all_vec [] ret = Inr ret"
| "select_loop all_vec (k # ret_idx) ret =
     (case at_int all_vec k of
        Inl e \<Rightarrow> Inl e
      | Inr x \<Rightarrow> select_loop all_vec ret_idx (ret @ [x]))"

text \<open>
  The index vectors handed to \<open>DeclareBackwardDependency\<close>, in the order of the
  call on lines 329--330.
\<close>

definition BackwardInputs ::
  "OperatorProperty \<Rightarrow> 'a list \<Rightarrow> 'a list \<Rightarrow> 'a list \<Rightarrow> error + 'a list" where
  "BackwardInputs this in_data out_data out_grad =
     (case flatten_loop in_data (length in_data) 0 (0, [], []) of
        Inl e \<Rightarrow> Inl e
      | Inr (cnt, all_vec, in_data_idx) \<Rightarrow>
     (case flatten_loop out_data (length out_data) 0 (cnt, all_vec, []) of
        Inl e \<Rightarrow> Inl e
      | Inr (cnt, all_vec, out_data_idx) \<Rightarrow>
     (case flatten_loop out_data (length out_grad) 0 (cnt, all_vec, []) of
        Inl e \<Rightarrow> Inl e
      | Inr (cnt, all_vec, out_grad_idx) \<Rightarrow>
          (let ret_idx = this_DeclareBackwardDependency this
                           in_data_idx out_data_idx out_grad_idx
           in select_loop all_vec ret_idx []))))"

text \<open>
  The value of \<open>cnt\<close> after \<open>j\<close> increments from \<open>0\<close>: the index that the loops
  give to slot number \<open>j\<close>. It is \<open>j\<close> itself up to \<open>2147483647\<close> and negative
  for the slot after that.
\<close>

definition slot_index :: "nat \<Rightarrow> int" where
  "slot_index j = wrap_int (int j)"

text \<open>
  The loops number the slots consecutively, first those of \<open>in_data\<close>, then
  those of \<open>out_data\<close>, then one slot per element of \<open>out_grad\<close>. \<open>ret_idx_of\<close>
  is the value of the local variable \<open>ret_idx\<close> (line 329) on the index vectors
  that the loops build; lemma \<open>BackwardInputs_unfold\<close> below shows that it is the
  value the function computes.
\<close>

definition ret_idx_of ::
  "OperatorProperty \<Rightarrow> 'a list \<Rightarrow> 'a list \<Rightarrow> 'a list \<Rightarrow> int list" where
  "ret_idx_of this in_data out_data out_grad =
     this_DeclareBackwardDependency this
       (map slot_index [0..<length in_data])
       (map slot_index [length in_data..<length in_data + length out_data])
       (map slot_index [length in_data + length out_data..<
                        length in_data + length out_data + length out_grad])"

text \<open>
  An object of a class whose \<open>DeclareBackwardDependency\<close> returns the fixed list
  \<open>ks\<close> and which inherits everything else.
\<close>

definition declaring :: "int list \<Rightarrow> OperatorProperty" where
  "declaring ks =
     inherits_all\<lparr>override_DeclareBackwardDependency :=
       Some (\<lambda>out_grad in_data out_data. ks)\<rparr>"

subsection \<open>Shape inference (lines 169--184)\<close>

text \<open>
  Modelled from the spec: \<open>InferShape\<close> is pure virtual in operator.h (line 183)
  and no operator class that implements it is among the sources, nor is the type
  \<open>TShape\<close>. The spec's Shape is an ordered sequence of dimension sizes in which
  the value zero denotes an unknown dimension; the comment on lines 170--174 adds
  that a shape without dimensions (\<open>ndim() == 0\<close>) is unknown as a whole.
\<close>

type_synonym TShape = "nat list"

text \<open>
  Modelled from the spec: the shape-inconsistency failure that \<open>InferShape\<close>
  raises (a \<open>dmlc::Error\<close> according to line 181).
\<close>

datatype dmlc_Error = ShapeInconsistency

text \<open>
  Modelled from the spec: the semantic rule of one operator kind ("a weight
  matrix's shape derived from an input's shape"). From the shapes as known so far
  it derives the shapes that the operator requires for its arguments and for its
  outputs, with zero for a dimension, and the empty shape for a shape, about
  which it says nothing.
\<close>

type_synonym shape_rule = "TShape list \<Rightarrow> TShape list \<Rightarrow> TShape list \<times> TShape list"

text \<open>
  Modelled from the spec: one dimension is refined from unknown to the derived
  size; a known dimension is kept, and a derived size that differs from it is a
  shape inconsistency.
\<close>

definition refine_dim :: "nat \<Rightarrow> nat \<Rightarrow> dmlc_Error + nat" where
  "refine_dim known derived =
     (if known = 0 then Inr derived
      else if derived = 0 \<or> derived = known then Inr known
      else Inl ShapeInconsistency)"

text \<open>
  Modelled from the spec: the dimensions of one shape, refined one by one; shapes
  with different numbers of dimensions are inconsistent.
\<close>

fun refine_dims :: "nat list \<Rightarrow> nat list \<Rightarrow> dmlc_Error + nat list" where
  "refine_dims [] [] = Inr []"
| "refine_dims (k # ks) (d # ds) =
     (case refine_dim k d of
        Inl e \<Rightarrow> Inl e
      | Inr x \<Rightarrow> (case refine_dims ks ds of Inl e \<Rightarrow> Inl e | Inr xs \<Rightarrow> Inr (x # xs)))"
| "refine_dims ks ds = Inl ShapeInconsistency"

text \<open>
  Modelled from the spec: an unknown shape is filled in with the derived one
  ("For unknown shapes, InferShape will try to fill in the correct Shape"), a
  known shape is checked against it ("For known shapes, InferShape will check
  shape consistency").
\<close>

definition refine_shape :: "TShape \<Rightarrow> TShape \<Rightarrow> dmlc_Error + TShape" where
  "refine_shape known derived =
     (if known = [] then Inr derived
      else if derived = [] then Inr known
      else refine_dims known derived)"

text \<open>
  Modelled from the spec: a shape vector is refined position by position; a
  position that only one of the two vectors has is taken as it is (so an empty
  \<open>out_shape\<close> is filled with the derived output shapes).
\<close>

fun refine_shapes :: "TShape list \<Rightarrow> TShape list \<Rightarrow> dmlc_Error + TShape list" where
  "refine_shapes [] ds = Inr ds"
| "refine_shapes ks [] = Inr ks"
| "refine_shapes (k # ks) (d # ds) =
     (case refine_shape k d of
        Inl e \<Rightarrow> Inl e
      | Inr s \<Rightarrow> (case refine_shapes ks ds of Inl e \<Rightarrow> Inl e | Inr ss \<Rightarrow> Inr (s # ss)))"

text \<open>Modelled from the spec: a shape is fully known when every dimension is non-zero.\<close>

definition fully_known :: "TShape \<Rightarrow> bool" where
  "fully_known s = (s \<noteq> [] \<and> list_all (\<lambda>d. d \<noteq> 0) s)"

text \<open>
  Modelled from the spec: \<open>InferShape\<close> of an operator kind with the given rule.
  It fills in what the rule derives, raises on a contradiction with a known shape,
  and returns the updated \<open>in_shape\<close> and \<open>out_shape\<close> together with the flag:
  true when every shape is fully known, false when information is missing.
\<close>

definition InferShape ::
  "shape_rule \<Rightarrow> TShape list \<Rightarrow> TShape list \<Rightarrow>
     dmlc_Error + (bool \<times> TShape list \<times> TShape list)" where
  "InferShape rule in_shape out_shape =
     (case rule in_shape out_shape of
        (derived_in, derived_out) \<Rightarrow>
     (case refine_shapes in_shape derived_in of
        Inl e \<Rightarrow> Inl e
      | Inr in_shape' \<Rightarrow>
     (case refine_shapes out_shape derived_out of
        Inl e \<Rightarrow> Inl e
      | Inr out_shape' \<Rightarrow>
          Inr (list_all fully_known in_shape' \<and> list_all fully_known out_shape',
               in_shape', out_shape'))))"

text \<open>
  Modelled from the spec: the operator of the spec's end-to-end scenario, with
  arguments "data" and "weight" and one output: for data of shape \<open>(n, m)\<close> the
  weight has shape \<open>(8, 16)\<close> and the output has shape \<open>(n, 16)\<close>.
\<close>

definition scenario_rule :: shape_rule where
  "scenario_rule in_shape out_shape =
     (case in_shape of
        [n, m] # rest \<Rightarrow> ([[], [8, 16]], [[n, 16]])
      | _ \<Rightarrow> ([], []))"

text \<open>
  Modelled from the spec: every dimension that is known in \<open>before\<close> is there,
  with the same size, in \<open>after\<close>.
\<close>

definition keeps_known :: "TShape list \<Rightarrow> TShape list \<Rightarrow> bool" where
  "keeps_known before after =
     (length before \<le> length after \<and>
      (\<forall>i \<in> {..<length before}. \<forall>j \<in> {..<length (before ! i)}.
         before ! i ! j \<noteq> 0 \<longrightarrow>
           j < length (after ! i) \<and> after ! i ! j = before ! i ! j))"

text \<open>
  Modelled from the spec: the rule would change a known dimension, that is, it
  derives a known size for a dimension that is known with another size.
\<close>

definition requires_change :: "TShape list \<Rightarrow> TShape list \<Rightarrow> bool" where
  "requires_change known derived =
     (\<exists>i \<in> {..<min (length known) (length derived)}.
      \<exists>j \<in> {..<min (length (known ! i)) (length (derived ! i))}.
        known ! i ! j \<noteq> 0 \<and> derived ! i ! j \<noteq> 0 \<and> derived ! i ! j \<noteq> known ! i ! j)"

text \<open>
  Modelled from the spec: some dimension is known on both sides, with different
  sizes.
\<close>

definition dims_conflict :: "TShape \<Rightarrow> TShape \<Rightarrow> bool" where
  "dims_conflict known derived =
     (\<exists>(k, d) \<in> set (zip known derived). k \<noteq> 0 \<and> d \<noteq> 0 \<and> k \<noteq> d)"

text \<open>
  Modelled from the spec: a known shape contradicts the derived one when both are
  given and differ in the number of dimensions or in a dimension both know.
\<close>

definition shape_conflict :: "TShape \<Rightarrow> TShape \<Rightarrow> bool" where
  "shape_conflict known derived =
     (known \<noteq> [] \<and> derived \<noteq> [] \<and>
      (length known \<noteq> length derived \<or> dims_conflict known derived))"

text \<open>
  Modelled from the spec: some shape of the vector contradicts the shape derived
  for its position.
\<close>

definition shapes_conflict :: "TShape list \<Rightarrow> TShape list \<Rightarrow> bool" where
  "shapes_conflict knowns deriveds =
     (\<exists>(known, derived) \<in> set (zip knowns deriveds). shape_conflict known derived)"

text \<open>
  Modelled from the spec: the already-known shapes, of the arguments or of the
  outputs, contradict the operator's rule.
\<close>

definition contradicts :: "shape_rule \<Rightarrow> TShape list \<Rightarrow> TShape list \<Rightarrow> bool" where
  "contradicts rule in_shape out_shape =
     (case rule in_shape out_shape of
        (derived_in, derived_out) \<Rightarrow>
          shapes_conflict in_shape derived_in \<or> shapes_conflict out_shape derived_out)"

text \<open>
  Modelled from the spec: every dimension of one shape is known beforehand or
  derived by the rule.
\<close>

definition shape_resolved :: "TShape \<Rightarrow> TShape \<Rightarrow> bool" where
  "shape_resolved known derived =
     (if known = [] then fully_known derived
      else if derived = [] then fully_known known
      else list_all (\<lambda>(k, d). k \<noteq> 0 \<or> d \<noteq> 0) (zip known derived))"

text \<open>
  Modelled from the spec: the same for every shape of a vector; a position that
  only one side has must be fully known there.
\<close>

fun resolves :: "TShape list \<Rightarrow> TShape list \<Rightarrow> bool" where
  "resolves [] ds = list_all fully_known ds"
| "resolves ks [] = list_all fully_known ks"
| "resolves (k # ks) (d # ds) = (shape_resolved k d \<and> resolves ks ds)"

text \<open>
  Modelled from the spec: the information suffices to resolve all shapes, those
  of the arguments and those of the outputs.
\<close>

definition sufficient :: "shape_rule \<Rightarrow> TShape list \<Rightarrow> TShape list \<Rightarrow> bool" where
  "sufficient rule in_shape out_shape =
     (case rule in_shape out_shape of
        (derived_in, derived_out) \<Rightarrow>
          resolves in_shape derived_in \<and> resolves out_shape derived_out)"

section \<open>The loops of BackwardInputs\<close>

declare flatten_loop.simps [simp del]

lemma wrap_int_small: "- 2147483648 \<le> n \<Longrightarrow> n \<le> 2147483647 \<Longrightarrow> wrap_int n = n"
  by (simp add: wrap_int_def)

lemma wrap_int_succ: "wrap_int (wrap_int n + 1) = wrap_int (n + 1)"
proof -
  have "wrap_int n + 1 + 2147483648 = (n + 2147483648) mod 4294967296 + 1"
    by (simp add: wrap_int_def)
  then have "(wrap_int n + 1 + 2147483648) mod 4294967296
      = ((n + 2147483648) mod 4294967296 + 1) mod 4294967296"
    by (rule arg_cong)
  also have "\<dots> = (n + 2147483648 + 1) mod 4294967296"
    by (rule mod_add_left_eq)
  also have "n + 2147483648 + 1 = n + 1 + 2147483648"
    by simp
  finally show ?thesis
    unfolding wrap_int_def [of "wrap_int n + 1"] wrap_int_def [of "n + 1"]
    by (rule arg_cong)
qed

lemma slot_index_small: "j \<le> 2147483647 \<Longrightarrow> slot_index j = int j"
  by (simp add: slot_index_def wrap_int_small)

lemma slot_index_first_negative: "slot_index 2147483648 = - 2147483648"
  by (simp add: slot_index_def wrap_int_def)

text \<open>
  A flattening loop whose bound does not exceed the size of the vector it reads
  appends \<open>bound - i\<close> elements and the indices of as many consecutive slots.
\<close>

lemma flatten_loop_in_range:
  "bound \<le> length src \<Longrightarrow> i \<le> bound \<Longrightarrow>
   flatten_loop src bound i (wrap_int c, all_vec, idx) =
     Inr (wrap_int (c + int (bound - i)),
          all_vec @ take (bound - i) (drop i src),
          idx @ map (\<lambda>j. wrap_int (c + int j)) [0..<bound - i])"
proof (induction "bound - i" arbitrary: i c all_vec idx)
  case 0
  then show ?case by (simp add: flatten_loop.simps)
next
  case (Suc d)
  then have lt: "i < bound" and d: "d = bound - Suc i" and le: "Suc i \<le> bound"
    by simp_all
  from lt Suc.prems have rd: "at_size_t src i = Inr (src ! i)"
    by (simp add: at_size_t_def)
  have step: "flatten_loop src bound i (wrap_int c, all_vec, idx) =
      flatten_loop src bound (Suc i) (wrap_int (c + 1), all_vec @ [src ! i], idx @ [wrap_int c])"
    by (subst flatten_loop.simps) (simp add: lt rd wrap_int_succ)
  have dr: "drop i src = src ! i # drop (Suc i) src"
    using lt Suc.prems by (simp add: Cons_nth_drop_Suc)
  have sd: "bound - i = Suc (bound - Suc i)"
    using lt by simp
  have tk: "take (bound - i) (drop i src) = src ! i # take (bound - Suc i) (drop (Suc i) src)"
    by (subst sd, subst dr) simp
  have up: "[0..<Suc (bound - Suc i)] = 0 # map Suc [0..<bound - Suc i]"
    by (simp add: upt_conv_Cons map_Suc_upt del: upt_Suc)
  have ix: "map (\<lambda>j. wrap_int (c + int j)) [0..<bound - i] =
      wrap_int c # map (\<lambda>j. wrap_int (c + 1 + int j)) [0..<bound - Suc i]"
    by (subst sd, subst up) (simp add: comp_def ac_simps)
  have cn: "c + 1 + int (bound - Suc i) = c + int (bound - i)"
    using lt by simp
  show ?case
    unfolding step Suc.hyps(1) [OF d Suc.prems(1) le] tk ix cn
    by simp
qed

text \<open>
  A flattening loop whose bound exceeds the size of the vector it reads stops at
  the read just behind the last element.
\<close>

lemma flatten_loop_overrun:
  "length src < bound \<Longrightarrow> i \<le> length src \<Longrightarrow>
   flatten_loop src bound i (cnt, all_vec, idx) = Inl OutOfBounds"
proof (induction "length src - i" arbitrary: i cnt all_vec idx)
  case 0
  then have "i = length src" by simp
  with 0 show ?case
    by (subst flatten_loop.simps) (simp add: at_size_t_def)
next
  case (Suc d)
  then have lt: "i < length src" and d: "d = length src - Suc i" by simp_all
  have step: "flatten_loop src bound i (cnt, all_vec, idx) =
      flatten_loop src bound (Suc i) (wrap_int (cnt + 1), all_vec @ [src ! i], idx @ [cnt])"
    using lt Suc.prems by (subst flatten_loop.simps) (simp add: at_size_t_def)
  show ?case
    unfolding step using Suc.hyps(1) [OF d Suc.prems(1)] lt by simp
qed

lemma select_loop_eq:
  "select_loop all_vec ret_idx ret =
     (if list_all (\<lambda>k. 0 \<le> k \<and> nat k < length all_vec) ret_idx
      then Inr (ret @ map (\<lambda>k. all_vec ! nat k) ret_idx)
      else Inl OutOfBounds)"
  by (induction ret_idx arbitrary: ret) (simp_all add: at_int_def)

lemma select_loop_all:
  "select_loop all_vec (map int [0..<length all_vec]) [] = Inr all_vec"
proof -
  have "list_all (\<lambda>k. 0 \<le> k \<and> nat k < length all_vec) (map int [0..<length all_vec])"
    by (simp add: list_all_iff)
  moreover have "map (\<lambda>k. all_vec ! nat k) (map int [0..<length all_vec]) = all_vec"
    by (simp add: comp_def map_nth)
  ultimately show ?thesis
    by (simp add: select_loop_eq)
qed

lemma index_run: "map (\<lambda>j. wrap_int (int a + int j)) [0..<n] = map slot_index [a..<a + n]"
proof -
  have "[a..<a + n] = map (\<lambda>j. j + a) [0..<n]"
    by (simp add: map_add_upt add.commute)
  then show ?thesis by (simp add: comp_def add.commute slot_index_def)
qed

lemma upt_three:
  "map f [0..<a] @ map f [a..<a + b] @ map f [a + b..<a + b + c]
     = map f [0..<a + b + c]"
  by (metis le_add1 map_append upt_add_eq_append add.assoc zero_le)

lemma flatten_in_data:
  "flatten_loop in_data (length in_data) 0 (0, [], []) =
     Inr (wrap_int (int (length in_data)), in_data, map slot_index [0..<length in_data])"
  using flatten_loop_in_range [of "length in_data" in_data 0 0 "[]" "[]"]
    index_run [of 0 "length in_data"]
  by (simp add: wrap_int_def)

lemma flatten_out_data:
  "flatten_loop out_data (length out_data) 0 (wrap_int (int (length in_data)), in_data, []) =
     Inr (wrap_int (int (length in_data) + int (length out_data)), in_data @ out_data,
          map slot_index [length in_data..<length in_data + length out_data])"
  using flatten_loop_in_range
    [of "length out_data" out_data 0 "int (length in_data)" in_data "[]"]
  by (simp add: index_run)

lemma flatten_out_grad:
  assumes "length out_grad \<le> length out_data"
  shows "flatten_loop out_data (length out_grad) 0
           (wrap_int (int (length in_data) + int (length out_data)), in_data @ out_data, []) =
         Inr (wrap_int (int (length in_data) + int (length out_data) + int (length out_grad)),
              in_data @ out_data @ take (length out_grad) out_data,
              map slot_index [length in_data + length out_data..<
                              length in_data + length out_data + length out_grad])"
  using flatten_loop_in_range [OF assms, of 0 "int (length in_data + length out_data)"
      "in_data @ out_data" "[]"]
    index_run [of "length in_data + length out_data" "length out_grad"]
  by simp

text \<open>
  With \<open>out_grad\<close> no longer than \<open>out_data\<close> the three loops complete; the
  flattened vector holds \<open>in_data\<close>, \<open>out_data\<close> and, in the slots of
  \<open>out_grad\<close>, the leading elements of \<open>out_data\<close> (line 327 reads
  \<open>out_data[i]\<close>).
\<close>

lemma BackwardInputs_unfold:
  assumes "length out_grad \<le> length out_data"
  shows "BackwardInputs this in_data out_data out_grad =
     select_loop (in_data @ out_data @ take (length out_grad) out_data)
       (ret_idx_of this in_data out_data out_grad) []"
  unfolding BackwardInputs_def flatten_in_data
  by (simp add: flatten_out_data flatten_out_grad [OF assms] ret_idx_of_def)

text \<open>With \<open>out_grad\<close> longer than \<open>out_data\<close> the third loop reads behind \<open>out_data\<close>.\<close>

lemma BackwardInputs_overrun:
  assumes "length out_data < length out_grad"
  shows "BackwardInputs this in_data out_data out_grad = Inl OutOfBounds"
proof -
  have "flatten_loop out_data (length out_grad) 0
        (wrap_int (int (length in_data) + int (length out_data)), in_data @ out_data, [])
      = Inl OutOfBounds"
    using flatten_loop_overrun [OF assms, of 0] by simp
  then show ?thesis
    unfolding BackwardInputs_def flatten_in_data
    by (simp add: flatten_out_data)
qed

text \<open>
  As long as the three vectors together hold at most \<open>2147483647\<close> elements, the
  index of every slot is its number.
\<close>

lemma ret_idx_of_small:
  assumes "length in_data + length out_data + length out_grad \<le> 2147483647"
  shows "ret_idx_of this in_data out_data out_grad =
     this_DeclareBackwardDependency this
       (map int [0..<length in_data])
       (map int [length in_data..<length in_data + length out_data])
       (map int [length in_data + length out_data..<
                 length in_data + length out_data + length out_grad])"
proof -
  have small: "map slot_index [a..<b] = map int [a..<b]"
    if "b \<le> length in_data + length out_data + length out_grad" for a b
  proof (rule map_cong [OF refl])
    fix j assume "j \<in> set [a..<b]"
    with that assms have "j \<le> 2147483647" by simp
    then show "slot_index j = int j" by (rule slot_index_small)
  qed
  have "map slot_index [0..<length in_data] = map int [0..<length in_data]"
    by (rule small) simp
  moreover have "map slot_index [length in_data..<length in_data + length out_data]
      = map int [length in_data..<length in_data + length out_data]"
    by (rule small) simp
  moreover have "map slot_index [length in_data + length out_data..<
        length in_data + length out_data + length out_grad]
      = map int [length in_data + length out_data..<
        length in_data + length out_data + length out_grad]"
    by (rule small) simp
  ultimately show ?thesis
    by (simp only: ret_idx_of_def)
qed

section \<open>Defaults of the base class\<close>

text \<open>
  C2: the default \<open>DeclareBackwardDependency\<close> returns its three index lists one
  after the other (\<open>out_grad\<close>, \<open>in_data\<close>, \<open>out_data\<close>); every index occurs in
  the result as often as in the three lists together, nothing is removed.
\<close>

theorem DeclareBackwardDependency_default:
  "DeclareBackwardDependency out_grad in_data out_data = out_grad @ in_data @ out_data
   \<and> mset (DeclareBackwardDependency out_grad in_data out_data)
       = mset out_grad + mset in_data + mset out_data
   \<and> this_DeclareBackwardDependency inherits_all out_grad in_data out_data
       = out_grad @ in_data @ out_data"
  by (simp add: DeclareBackwardDependency_def this_DeclareBackwardDependency_def
      inherits_all_def)

text \<open>
  C6: the default \<open>ForwardInplaceOption\<close> and \<open>BackwardInplaceOption\<close> return the
  empty sequence of pairs for all index lists.
\<close>

theorem InplaceOption_default_empty:
  "ForwardInplaceOption in_data out_data = []
   \<and> BackwardInplaceOption out_grad in_data out_data in_grad = []"
  by (simp add: ForwardInplaceOption_def BackwardInplaceOption_def)

text \<open>
  C7: the default \<open>ForwardResource\<close> and \<open>BackwardResource\<close> return the empty
  sequence of resource requests.
\<close>

theorem Resource_default_empty:
  "ForwardResource = [] \<and> BackwardResource = []"
  by (simp add: ForwardResource_def BackwardResource_def)

text \<open>
  C8: the default \<open>ListArguments\<close> returns the one name "data", the default
  \<open>ListReturns\<close> the one name "output".
\<close>

theorem List_default_names:
  "ListArguments = [''data''] \<and> length ListArguments = 1
   \<and> ListReturns = [''output''] \<and> length ListReturns = 1"
  by (simp add: ListArguments_def ListReturns_def)

text \<open>
  C5, as amended: an operator class that inherits \<open>NumVisibleReturns\<close> reports as
  many visible returns as returns, whatever its \<open>NumReturns\<close> is, so the visible
  count does not exceed the total; a class that overrides nothing reports 1 and 1.
  For a class that overrides \<open>NumVisibleReturns\<close> the base class relates the two
  counts in no way.
\<close>

theorem NumVisibleReturns_inherited:
  "(override_NumVisibleReturns this = None \<longrightarrow>
      this_NumVisibleReturns this = this_NumReturns this
      \<and> this_NumVisibleReturns this \<le> this_NumReturns this)
   \<and> this_NumReturns inherits_all = 1 \<and> this_NumVisibleReturns inherits_all = 1"
  by (simp add: this_NumVisibleReturns_def NumVisibleReturns_def this_NumReturns_def
      NumReturns_def inherits_all_def)

theorem NumVisibleReturns_inherited_witness:
  "override_NumVisibleReturns (inherits_all\<lparr>override_NumReturns := Some 2\<rparr>) = None
   \<and> this_NumVisibleReturns (inherits_all\<lparr>override_NumReturns := Some 2\<rparr>) = 2
   \<and> this_NumReturns (inherits_all\<lparr>override_NumReturns := Some 2\<rparr>) = 2"
  using NumVisibleReturns_inherited [of "inherits_all\<lparr>override_NumReturns := Some 2\<rparr>"]
  by (simp add: inherits_all_def this_NumReturns_def)

text \<open>
  C5 as stated fails for a class that overrides \<open>NumVisibleReturns\<close> to return 2
  and inherits \<open>NumReturns\<close>, which returns 1.
\<close>

theorem NumVisibleReturns_override_counterexample:
  "\<not> this_NumVisibleReturns (inherits_all\<lparr>override_NumVisibleReturns := Some 2\<rparr>)
       \<le> this_NumReturns (inherits_all\<lparr>override_NumVisibleReturns := Some 2\<rparr>)"
  by (simp add: this_NumVisibleReturns_def this_NumReturns_def NumReturns_def inherits_all_def)

section \<open>BackwardInputs\<close>

text \<open>
  C9, as amended: for an operator class that inherits
  \<open>DeclareBackwardDependency\<close>, \<open>out_grad\<close> no longer than \<open>out_data\<close>, and at
  most \<open>2147483647\<close> elements in the three sequences together, \<open>BackwardInputs\<close>
  returns \<open>in_data\<close>, then \<open>out_data\<close>, then the first \<open>|out_grad|\<close> elements of
  \<open>out_data\<close>. The index vector of \<open>in_data\<close> is passed for the parameter
  \<open>out_grad\<close> of \<open>DeclareBackwardDependency\<close>, which the default puts first; so
  the result starts with \<open>in_data\<close>.
\<close>

theorem BackwardInputs_default_dependency:
  assumes "override_DeclareBackwardDependency this = None"
      and "length out_grad \<le> length out_data"
      and "length in_data + length out_data + length out_grad \<le> 2147483647"
  shows "BackwardInputs this in_data out_data out_grad =
           Inr (in_data @ out_data @ take (length out_grad) out_data)"
proof -
  let ?all = "in_data @ out_data @ take (length out_grad) out_data"
  have len: "length ?all = length in_data + length out_data + length out_grad"
    using assms(2) by simp
  have "ret_idx_of this in_data out_data out_grad = map int [0..<length ?all]"
    unfolding len ret_idx_of_small [OF assms(3)]
    by (simp add: this_DeclareBackwardDependency_def assms(1)
        DeclareBackwardDependency_def upt_three del: map_append upt_Suc)
  then show ?thesis
    using BackwardInputs_unfold [OF assms(2), of this in_data]
    by (simp only: select_loop_all)
qed

theorem BackwardInputs_default_dependency_witness:
  "BackwardInputs inherits_all [''a'', ''b''] [''c'', ''e''] [''d'']
     = Inr [''a'', ''b'', ''c'', ''e'', ''c'']"
  using BackwardInputs_default_dependency
    [of inherits_all "[''d'']" "[''c'', ''e'']" "[''a'', ''b'']"]
  by (simp add: inherits_all_def)

text \<open>
  C9 as stated fails for \<open>2147483648\<close> elements in \<open>in_data\<close>, one in \<open>out_data\<close>
  and none in \<open>out_grad\<close>: the counter has wrapped when the slot of \<open>out_data\<close> is
  numbered, its index is \<open>-2147483648\<close>, the default dependency returns it, and
  \<open>all_vec\<close> is read outside its bounds.
\<close>

theorem BackwardInputs_default_dependency_counterexample:
  "length ([] :: char list) \<le> length [CHR ''c'']
   \<and> BackwardInputs inherits_all (replicate 2147483648 (CHR ''a'')) [CHR ''c''] []
       = Inl OutOfBounds"
proof -
  let ?in = "replicate 2147483648 (CHR ''a'')"
  have "- 2147483648 \<in> set (ret_idx_of inherits_all ?in [CHR ''c''] ([] :: char list))"
    by (simp add: ret_idx_of_def this_DeclareBackwardDependency_def inherits_all_def
        DeclareBackwardDependency_def slot_index_first_negative del: upt_Suc)
  then have "\<not> list_all (\<lambda>k. 0 \<le> k \<and> nat k < length (?in @ [CHR ''c''] @ take 0 [CHR ''c'']))
      (ret_idx_of inherits_all ?in [CHR ''c''] ([] :: char list))"
    unfolding list_all_iff by (intro notI) (drule bspec, assumption, simp)
  then have "select_loop (?in @ [CHR ''c''] @ take (length ([] :: char list)) [CHR ''c''])
      (ret_idx_of inherits_all ?in [CHR ''c''] ([] :: char list)) [] = Inl OutOfBounds"
    by (simp only: select_loop_eq list.size if_False)
  then show ?thesis
    using BackwardInputs_unfold [of "[] :: char list" "[CHR ''c'']" inherits_all ?in]
    by simp
qed

text \<open>
  C1, as amended: with \<open>out_grad\<close> no longer than \<open>out_data\<close>, and every index
  returned by \<open>DeclareBackwardDependency\<close> naming a slot of \<open>in_data\<close> or of
  \<open>out_data\<close> (the slots \<open>0 .. |in_data| + |out_data| - 1\<close> of the flattened
  sequence), \<open>BackwardInputs\<close> returns, in the order of the returned indices, the
  element of \<open>in_data\<close> followed by \<open>out_data\<close> at each index.
\<close>

theorem BackwardInputs_selects:
  assumes "length out_grad \<le> length out_data"
      and "\<forall>k \<in> set (ret_idx_of this in_data out_data out_grad).
             0 \<le> k \<and> k < int (length in_data + length out_data)"
  shows "BackwardInputs this in_data out_data out_grad =
           Inr (map (\<lambda>k. (in_data @ out_data) ! nat k)
                  (ret_idx_of this in_data out_data out_grad))"
proof -
  let ?ks = "ret_idx_of this in_data out_data out_grad"
  let ?all = "in_data @ out_data @ take (length out_grad) out_data"
  have ok: "list_all (\<lambda>k. 0 \<le> k \<and> nat k < length ?all) ?ks"
    using assms(2) by (auto simp: list_all_iff)
  have "map (\<lambda>k. ?all ! nat k) ?ks = map (\<lambda>k. (in_data @ out_data) ! nat k) ?ks"
  proof (rule map_cong [OF refl])
    fix k assume "k \<in> set ?ks"
    with assms(2) have "nat k < length (in_data @ out_data)" by auto
    then have "((in_data @ out_data) @ take (length out_grad) out_data) ! nat k
        = (in_data @ out_data) ! nat k"
      by (rule nth_append_left)
    then show "?all ! nat k = (in_data @ out_data) ! nat k" by simp
  qed
  with ok show ?thesis
    by (simp add: BackwardInputs_unfold [OF assms(1)] select_loop_eq)
qed

text \<open>
  The scenario of C1: the indices 0 and 2 name the first element of \<open>in_data\<close>
  and the element of \<open>out_data\<close>; the slot of \<open>out_grad\<close> has index 3.
\<close>

theorem BackwardInputs_selects_witness:
  "BackwardInputs (declaring [0, 2]) [''a'', ''b''] [''c''] [''d''] = Inr [''a'', ''c'']"
  using BackwardInputs_selects [of "[''d'']" "[''c'']" "declaring [0, 2]" "[''a'', ''b'']"]
  by (simp add: ret_idx_of_def declaring_def this_DeclareBackwardDependency_def
      inherits_all_def)

text \<open>
  C1 as stated fails in its scenario, where the result is \<open>[a, c]\<close>. The general
  sentence fails at the slot of \<open>out_grad\<close>, index 3, which line 327 has filled
  with \<open>out_data[0]\<close>: the element returned for it is \<open>c\<close>, not \<open>d\<close>.
\<close>

theorem BackwardInputs_scenario_counterexample:
  "BackwardInputs (declaring [0, 2]) [''a'', ''b''] [''c''] [''d''] = Inr [''a'', ''c'']
   \<and> BackwardInputs (declaring [0, 2]) [''a'', ''b''] [''c''] [''d''] \<noteq> Inr [''a'', ''d'']
   \<and> BackwardInputs (declaring [0, 3]) [''a'', ''b''] [''c''] [''d''] = Inr [''a'', ''c'']"
  by (simp add: BackwardInputs_def declaring_def this_DeclareBackwardDependency_def
      inherits_all_def flatten_loop.simps at_size_t_def at_int_def)

text \<open>
  C10, as amended: every element read of \<open>BackwardInputs\<close> is within bounds if and
  only if \<open>out_grad\<close> has at most as many elements as \<open>out_data\<close> and every index
  returned by \<open>DeclareBackwardDependency\<close> is at least 0 and less than
  \<open>|in_data| + |out_data| + |out_grad|\<close>. The first condition is what keeps the
  read \<open>out_data[i]\<close> of the third flattening loop within bounds.
\<close>

theorem BackwardInputs_in_bounds:
  "(\<exists>ret. BackwardInputs this in_data out_data out_grad = Inr ret) \<longleftrightarrow>
     length out_grad \<le> length out_data \<and>
     (\<forall>k \<in> set (ret_idx_of this in_data out_data out_grad).
        0 \<le> k \<and> k < int (length in_data + length out_data + length out_grad))"
proof (cases "length out_grad \<le> length out_data")
  case True
  let ?all = "in_data @ out_data @ take (length out_grad) out_data"
  have len: "length ?all = length in_data + length out_data + length out_grad"
    using True by simp
  have "(\<forall>k \<in> set (ret_idx_of this in_data out_data out_grad).
        0 \<le> k \<and> k < int (length in_data + length out_data + length out_grad))
      \<longleftrightarrow> list_all (\<lambda>k. 0 \<le> k \<and> nat k < length ?all)
            (ret_idx_of this in_data out_data out_grad)"
    unfolding len list_all_iff by auto
  then show ?thesis
    using True by (simp add: BackwardInputs_unfold [OF True] select_loop_eq del: length_append)
next
  case False
  then have "length out_data < length out_grad" by simp
  then have "BackwardInputs this in_data out_data out_grad = Inl OutOfBounds"
    by (rule BackwardInputs_overrun)
  with False show ?thesis by simp
qed

theorem BackwardInputs_in_bounds_witness:
  "length [''d''] \<le> length [''c'']
   \<and> list_all (\<lambda>k. 0 \<le> k \<and> k < 4) (ret_idx_of (declaring [3, 0]) [''a'', ''b''] [''c''] [''d''])
   \<and> (\<exists>ret. BackwardInputs (declaring [3, 0]) [''a'', ''b''] [''c''] [''d''] = Inr ret)"
  using BackwardInputs_in_bounds [of "declaring [3, 0]" "[''a'', ''b'']" "[''c'']" "[''d'']"]
  by (simp add: ret_idx_of_def declaring_def this_DeclareBackwardDependency_def
      inherits_all_def)

text \<open>
  C10 as stated asks only that every returned index is less than the total; the
  index \<open>-1\<close> is, and the read \<open>all_vec[-1]\<close> is outside the vector.
\<close>

theorem BackwardInputs_negative_index_counterexample:
  "length [''d''] \<le> length [''c'']
   \<and> ret_idx_of (declaring [- 1]) [''a'', ''b''] [''c''] [''d''] = [- 1]
   \<and> (- 1 :: int) < int (length [''a'', ''b''] + length [''c''] + length [''d''])
   \<and> BackwardInputs (declaring [- 1]) [''a'', ''b''] [''c''] [''d''] = Inl OutOfBounds"
  by (simp add: BackwardInputs_def ret_idx_of_def declaring_def
      this_DeclareBackwardDependency_def inherits_all_def flatten_loop.simps
      at_size_t_def at_int_def)

text \<open>
  The result of \<open>BackwardInputs\<close> depends on \<open>out_grad\<close> only through its
  size: the elements of \<open>out_grad\<close> are never read.
\<close>

theorem BackwardInputs_reads_no_out_grad:
  assumes "length out_grad' = length out_grad"
  shows "BackwardInputs this in_data out_data out_grad'
           = BackwardInputs this in_data out_data out_grad"
proof (cases "length out_grad \<le> length out_data")
  case True
  with assms have le: "length out_grad' \<le> length out_data" by simp
  show ?thesis
    unfolding BackwardInputs_unfold [OF True] BackwardInputs_unfold [OF le]
    by (simp add: ret_idx_of_def assms)
next
  case False
  with assms have "length out_data < length out_grad" "length out_data < length out_grad'"
    by simp_all
  then show ?thesis
    by (simp add: BackwardInputs_overrun)
qed

theorem BackwardInputs_reads_no_out_grad_witness:
  "BackwardInputs inherits_all [''a'', ''b''] [''c''] [''x'']
     = BackwardInputs inherits_all [''a'', ''b''] [''c''] [''d'']"
  using BackwardInputs_reads_no_out_grad [of "[''x'']" "[''d'']"]
  by simp

section \<open>Shape inference\<close>

lemma dmlc_Error_only: "(e = ShapeInconsistency) = True" "(ShapeInconsistency = e) = True"
  by (cases e, simp)+

lemma refine_dim_Inl: "refine_dim k d = Inl e \<longleftrightarrow> k \<noteq> 0 \<and> d \<noteq> 0 \<and> k \<noteq> d"
  by (cases e) (auto simp: refine_dim_def)

lemma refine_dim_Inr: "refine_dim k d = Inr x \<longleftrightarrow>
    \<not> (k \<noteq> 0 \<and> d \<noteq> 0 \<and> k \<noteq> d) \<and> x = (if k = 0 then d else k)"
  by (auto simp: refine_dim_def)

lemma refine_dims_Inl:
  "refine_dims ks ds = Inl e \<longleftrightarrow> length ks \<noteq> length ds \<or> dims_conflict ks ds"
proof (induction ks ds rule: refine_dims.induct)
  case 1
  then show ?case by (simp add: dims_conflict_def)
next
  case (2 k ks d ds)
  show ?case
  proof (cases "refine_dim k d")
    case (Inl e')
    then have "refine_dims (k # ks) (d # ds) = Inl e"
      by (cases e, cases e') simp
    moreover from Inl have "k \<noteq> 0 \<and> d \<noteq> 0 \<and> k \<noteq> d"
      by (simp add: refine_dim_Inl)
    then have "dims_conflict (k # ks) (d # ds)"
      by (simp add: dims_conflict_def)
    ultimately show ?thesis by simp
  next
    case (Inr x)
    then have nc: "\<not> (k \<noteq> 0 \<and> d \<noteq> 0 \<and> k \<noteq> d)"
      by (simp add: refine_dim_Inr)
    have "refine_dims (k # ks) (d # ds) = Inl e \<longleftrightarrow> refine_dims ks ds = Inl e"
      using Inr by (simp split: sum.splits)
    also have "\<dots> \<longleftrightarrow> length ks \<noteq> length ds \<or> dims_conflict ks ds"
      using 2 Inr by simp
    also have "\<dots> \<longleftrightarrow> length (k # ks) \<noteq> length (d # ds) \<or> dims_conflict (k # ks) (d # ds)"
      using nc by (auto simp: dims_conflict_def)
    finally show ?thesis .
  qed
qed (simp_all add: dmlc_Error_only)

lemma refine_dims_Inr:
  "refine_dims ks ds = Inr xs \<Longrightarrow>
     length xs = length ks \<and> length ds = length ks \<and>
     (\<forall>j < length ks. xs ! j = (if ks ! j = 0 then ds ! j else ks ! j))"
proof (induction ks ds arbitrary: xs rule: refine_dims.induct)
  case 1
  then show ?case by simp
next
  case (2 k ks d ds)
  from "2.prems" obtain x xs' where
    x: "refine_dim k d = Inr x" and xs': "refine_dims ks ds = Inr xs'" and eq: "xs = x # xs'"
    by (auto split: sum.splits)
  from "2.IH" [OF x xs'] have
    IH: "length xs' = length ks \<and> length ds = length ks \<and>
      (\<forall>j<length ks. xs' ! j = (if ks ! j = 0 then ds ! j else ks ! j))" .
  from x have xv: "x = (if k = 0 then d else k)"
    by (simp add: refine_dim_Inr)
  show ?case
  proof (intro conjI allI impI)
    show "length xs = length (k # ks)" using IH eq by simp
    show "length (d # ds) = length (k # ks)" using IH by simp
    fix j assume "j < length (k # ks)"
    then show "xs ! j = (if (k # ks) ! j = 0 then (d # ds) ! j else (k # ks) ! j)"
      using IH eq xv by (cases j) auto
  qed
qed simp_all

lemma refine_shape_Inl: "refine_shape k d = Inl e \<longleftrightarrow> shape_conflict k d"
  by (simp add: refine_shape_def shape_conflict_def refine_dims_Inl)

lemma refine_shape_keeps:
  assumes "refine_shape k d = Inr s" and "j < length k" and "k ! j \<noteq> 0"
  shows "j < length s \<and> s ! j = k ! j"
proof (cases "d = []")
  case True
  with assms show ?thesis by (auto simp: refine_shape_def split: if_splits)
next
  case False
  with assms have "refine_dims k d = Inr s"
    by (auto simp: refine_shape_def split: if_splits)
  from refine_dims_Inr [OF this] assms(2,3) show ?thesis by simp
qed

lemma refine_shape_known:
  assumes "refine_shape k d = Inr s"
  shows "fully_known s \<longleftrightarrow> shape_resolved k d"
proof (cases "k = [] \<or> d = []")
  case True
  with assms show ?thesis
    by (auto simp: refine_shape_def shape_resolved_def)
next
  case False
  with assms have r: "refine_dims k d = Inr s"
    by (auto simp: refine_shape_def split: if_splits)
  note f = refine_dims_Inr [OF r]
  from f False have ne: "s \<noteq> []" by auto
  have "list_all (\<lambda>x. x \<noteq> 0) s \<longleftrightarrow> (\<forall>j < length k. k ! j \<noteq> 0 \<or> d ! j \<noteq> 0)"
    using f by (auto simp: list_all_length)
  also have "\<dots> \<longleftrightarrow> list_all (\<lambda>(a, b). a \<noteq> 0 \<or> b \<noteq> 0) (zip k d)"
    using f by (auto simp: list_all_length)
  finally show ?thesis
    using False ne by (simp add: fully_known_def shape_resolved_def)
qed

lemma refine_shapes_Inl: "refine_shapes ks ds = Inl e \<longleftrightarrow> shapes_conflict ks ds"
proof (induction ks ds rule: refine_shapes.induct)
  case (1 ds)
  then show ?case by (simp add: shapes_conflict_def)
next
  case (2 k ks)
  then show ?case by (simp add: shapes_conflict_def)
next
  case (3 k ks d ds)
  show ?case
  proof (cases "refine_shape k d")
    case (Inl e')
    then have "refine_shapes (k # ks) (d # ds) = Inl e"
      by (cases e, cases e') simp
    moreover from Inl have "shape_conflict k d"
      by (simp add: refine_shape_Inl)
    then have "shapes_conflict (k # ks) (d # ds)"
      by (simp add: shapes_conflict_def)
    ultimately show ?thesis by simp
  next
    case (Inr s)
    then have nc: "\<not> shape_conflict k d"
      using refine_shape_Inl [of k d ShapeInconsistency] by simp
    have "refine_shapes (k # ks) (d # ds) = Inl e \<longleftrightarrow> refine_shapes ks ds = Inl e"
      using Inr by (simp split: sum.splits)
    also have "\<dots> \<longleftrightarrow> shapes_conflict ks ds"
      using 3 Inr by simp
    also have "\<dots> \<longleftrightarrow> shapes_conflict (k # ks) (d # ds)"
      using nc by (simp add: shapes_conflict_def)
    finally show ?thesis .
  qed
qed

lemma refine_shapes_keeps:
  "refine_shapes ks ds = Inr ss \<Longrightarrow> keeps_known ks ss"
proof (induction ks ds arbitrary: ss rule: refine_shapes.induct)
  case (1 ds)
  then show ?case by (simp add: keeps_known_def)
next
  case (2 k ks)
  then show ?case by (simp add: keeps_known_def)
next
  case (3 k ks d ds)
  from "3.prems" obtain s ss' where
    s: "refine_shape k d = Inr s" and ss': "refine_shapes ks ds = Inr ss'" and eq: "ss = s # ss'"
    by (auto split: sum.splits)
  from "3.IH" [OF s ss'] have IH: "keeps_known ks ss'" .
  show ?case
    unfolding keeps_known_def
  proof (intro conjI ballI impI)
    show "length (k # ks) \<le> length ss"
      using IH eq by (simp add: keeps_known_def)
  next
    fix i j
    assume i: "i \<in> {..<length (k # ks)}" and j: "j \<in> {..<length ((k # ks) ! i)}"
       and nz: "(k # ks) ! i ! j \<noteq> 0"
    show "j < length (ss ! i)"
    proof (cases i)
      case 0
      with j nz refine_shape_keeps [OF s, of j] eq show ?thesis by simp
    next
      case (Suc i')
      with i j nz IH eq show ?thesis by (simp add: keeps_known_def)
    qed
    show "ss ! i ! j = (k # ks) ! i ! j"
    proof (cases i)
      case 0
      with j nz refine_shape_keeps [OF s, of j] eq show ?thesis by simp
    next
      case (Suc i')
      with i j nz IH eq show ?thesis by (simp add: keeps_known_def)
    qed
  qed
qed

lemma refine_shapes_known:
  "refine_shapes ks ds = Inr ss \<Longrightarrow> list_all fully_known ss \<longleftrightarrow> resolves ks ds"
proof (induction ks ds arbitrary: ss rule: refine_shapes.induct)
  case (1 ds)
  then show ?case by simp
next
  case (2 k ks)
  then have "ss = k # ks" by simp
  then show ?case by simp
next
  case (3 k ks d ds)
  from "3.prems" obtain s ss' where
    s: "refine_shape k d = Inr s" and ss': "refine_shapes ks ds = Inr ss'" and eq: "ss = s # ss'"
    by (auto split: sum.splits)
  from "3.IH" [OF s ss'] refine_shape_known [OF s] eq show ?case by simp
qed

lemma requires_change_conflict:
  assumes "requires_change ks ds"
  shows "shapes_conflict ks ds"
proof -
  from assms obtain i j where
    i: "i < length ks" "i < length ds" and
    j: "j < length (ks ! i)" "j < length (ds ! i)" and
    c: "ks ! i ! j \<noteq> 0" "ds ! i ! j \<noteq> 0" "ds ! i ! j \<noteq> ks ! i ! j"
    by (auto simp: requires_change_def)
  from j c have "(ks ! i ! j, ds ! i ! j) \<in> set (zip (ks ! i) (ds ! i))"
    by (auto simp: set_zip)
  with c have "dims_conflict (ks ! i) (ds ! i)"
    unfolding dims_conflict_def by (intro bexI [of _ "(ks ! i ! j, ds ! i ! j)"]) auto
  with j have "shape_conflict (ks ! i) (ds ! i)"
    by (auto simp: shape_conflict_def)
  moreover from i have "(ks ! i, ds ! i) \<in> set (zip ks ds)"
    by (auto simp: set_zip)
  ultimately show ?thesis
    unfolding shapes_conflict_def by (intro bexI [of _ "(ks ! i, ds ! i)"]) auto
qed

lemma InferShape_Inl:
  "InferShape rule in_shape out_shape = Inl e \<longleftrightarrow> contradicts rule in_shape out_shape"
proof (cases "rule in_shape out_shape")
  case (Pair derived_in derived_out)
  show ?thesis
  proof (cases "refine_shapes in_shape derived_in")
    case (Inl e')
    then have "shapes_conflict in_shape derived_in"
      by (simp add: refine_shapes_Inl)
    moreover from Inl Pair have "InferShape rule in_shape out_shape = Inl e"
      by (cases e, cases e') (simp add: InferShape_def)
    ultimately show ?thesis
      using Pair by (simp add: contradicts_def)
  next
    case (Inr in')
    then have nc: "\<not> shapes_conflict in_shape derived_in"
      using refine_shapes_Inl [of in_shape derived_in ShapeInconsistency] by simp
    have "InferShape rule in_shape out_shape = Inl e \<longleftrightarrow>
        refine_shapes out_shape derived_out = Inl e"
      using Pair Inr by (simp add: InferShape_def split: sum.splits)
    also have "\<dots> \<longleftrightarrow> shapes_conflict out_shape derived_out"
      by (rule refine_shapes_Inl)
    finally show ?thesis
      using Pair nc by (simp add: contradicts_def)
  qed
qed

lemma InferShape_Inr:
  assumes "InferShape rule in_shape out_shape = Inr (ok, in_shape', out_shape')"
  shows "refine_shapes in_shape (fst (rule in_shape out_shape)) = Inr in_shape'"
    and "refine_shapes out_shape (snd (rule in_shape out_shape)) = Inr out_shape'"
    and "ok \<longleftrightarrow> list_all fully_known in_shape' \<and> list_all fully_known out_shape'"
  using assms by (auto simp: InferShape_def split: prod.splits sum.splits)

lemma InferShape_flag:
  assumes "InferShape rule in_shape out_shape = Inr (ok, in_shape', out_shape')"
  shows "ok \<longleftrightarrow> sufficient rule in_shape out_shape"
  using InferShape_Inr [OF assms]
  by (simp add: sufficient_def split_beta refine_shapes_known)

lemma InferShape_total:
  "\<not> contradicts rule in_shape out_shape \<Longrightarrow>
   \<exists>in_shape' out_shape'. InferShape rule in_shape out_shape =
      Inr (sufficient rule in_shape out_shape, in_shape', out_shape')"
proof -
  assume nc: "\<not> contradicts rule in_shape out_shape"
  obtain r where r: "InferShape rule in_shape out_shape = Inr r"
    using nc InferShape_Inl [of rule in_shape out_shape ShapeInconsistency]
    by (cases "InferShape rule in_shape out_shape") (auto, metis dmlc_Error.exhaust)
  obtain ok in' out' where "r = (ok, in', out')" by (cases r)
  with r InferShape_flag [of rule in_shape out_shape ok in' out'] show ?thesis by auto
qed

text \<open>
  C3: when \<open>InferShape\<close> returns, every dimension that was known in \<open>in_shape\<close>
  and \<open>out_shape\<close> is still there with the same size, so a dimension changes only
  from unknown to known; when the operator's rule derives another known size for
  a known dimension, \<open>InferShape\<close> raises the shape inconsistency instead.
\<close>

theorem InferShape_keeps_known_dimensions:
  "(InferShape rule in_shape out_shape = Inr (ok, in_shape', out_shape') \<longrightarrow>
      keeps_known in_shape in_shape' \<and> keeps_known out_shape out_shape')
   \<and> (requires_change in_shape (fst (rule in_shape out_shape))
       \<or> requires_change out_shape (snd (rule in_shape out_shape)) \<longrightarrow>
      InferShape rule in_shape out_shape = Inl ShapeInconsistency)"
proof (intro conjI impI)
  assume r: "InferShape rule in_shape out_shape = Inr (ok, in_shape', out_shape')"
  from InferShape_Inr(1) [OF r] show "keeps_known in_shape in_shape'"
    by (rule refine_shapes_keeps)
  from InferShape_Inr(2) [OF r] show "keeps_known out_shape out_shape'"
    by (rule refine_shapes_keeps)
next
  assume "requires_change in_shape (fst (rule in_shape out_shape))
       \<or> requires_change out_shape (snd (rule in_shape out_shape))"
  then have "contradicts rule in_shape out_shape"
    by (auto simp: contradicts_def split_beta dest: requires_change_conflict)
  then show "InferShape rule in_shape out_shape = Inl ShapeInconsistency"
    by (simp add: InferShape_Inl)
qed

theorem InferShape_keeps_known_dimensions_witness:
  "InferShape scenario_rule [[4, 8], [8, 0]] [[0, 16]] = Inr (True, [[4, 8], [8, 16]], [[4, 16]])
   \<and> keeps_known [[4, 8], [8, 0]] [[4, 8], [8, 16]]
   \<and> keeps_known [[0, 16]] [[4, 16]]
   \<and> requires_change [[4, 8], [7, 0]] (fst (scenario_rule [[4, 8], [7, 0]] []))
   \<and> InferShape scenario_rule [[4, 8], [7, 0]] [] = Inl ShapeInconsistency"
  using InferShape_keeps_known_dimensions
      [of scenario_rule "[[4, 8], [8, 0]]" "[[0, 16]]" True "[[4, 8], [8, 16]]" "[[4, 16]]"]
    InferShape_keeps_known_dimensions [of scenario_rule "[[4, 8], [7, 0]]" "[]"]
  by (simp add: InferShape_def scenario_rule_def refine_shape_def refine_dim_def
      fully_known_def requires_change_def lessThan_Suc numeral_2_eq_2)

text \<open>
  C4: \<open>InferShape\<close> raises the shape inconsistency exactly when the already-known
  shapes contradict the operator's rule; otherwise it returns, and it returns
  false exactly when the information does not suffice to resolve all shapes, true
  exactly when it does.
\<close>

theorem InferShape_outcomes:
  "(InferShape rule in_shape out_shape = Inl ShapeInconsistency
      \<longleftrightarrow> contradicts rule in_shape out_shape)
   \<and> ((\<exists>in_shape' out_shape'.
         InferShape rule in_shape out_shape = Inr (False, in_shape', out_shape'))
      \<longleftrightarrow> \<not> contradicts rule in_shape out_shape \<and> \<not> sufficient rule in_shape out_shape)
   \<and> ((\<exists>in_shape' out_shape'.
         InferShape rule in_shape out_shape = Inr (True, in_shape', out_shape'))
      \<longleftrightarrow> \<not> contradicts rule in_shape out_shape \<and> sufficient rule in_shape out_shape)"
proof (cases "contradicts rule in_shape out_shape")
  case True
  then have "InferShape rule in_shape out_shape = Inl ShapeInconsistency"
    by (simp add: InferShape_Inl)
  with True show ?thesis by simp
next
  case False
  from InferShape_total [OF False] obtain in' out' where
    r: "InferShape rule in_shape out_shape =
          Inr (sufficient rule in_shape out_shape, in', out')"
    by blast
  with False show ?thesis
    by (cases "sufficient rule in_shape out_shape") simp_all
qed

theorem InferShape_outcomes_witness:
  "contradicts scenario_rule [[4, 8], [7, 0]] []
   \<and> InferShape scenario_rule [[4, 8], [7, 0]] [] = Inl ShapeInconsistency
   \<and> \<not> contradicts scenario_rule [[0, 8], []] [] \<and> \<not> sufficient scenario_rule [[0, 8], []] []
   \<and> (\<exists>in_shape' out_shape'.
         InferShape scenario_rule [[0, 8], []] [] = Inr (False, in_shape', out_shape'))
   \<and> \<not> contradicts scenario_rule [[4, 8], []] [] \<and> sufficient scenario_rule [[4, 8], []] []
   \<and> (\<exists>in_shape' out_shape'.
         InferShape scenario_rule [[4, 8], []] [] = Inr (True, in_shape', out_shape'))"
  using InferShape_outcomes [of scenario_rule "[[4, 8], [7, 0]]" "[]"]
    InferShape_outcomes [of scenario_rule "[[0, 8], []]" "[]"]
    InferShape_outcomes [of scenario_rule "[[4, 8], []]" "[]"]
  by (simp add: contradicts_def sufficient_def scenario_rule_def shapes_conflict_def
      shape_conflict_def dims_conflict_def shape_resolved_def fully_known_def)

end
